theory Spec2Isabelle
  imports Main
begin

unbundle bit_operations_syntax

section \<open>Python values: exceptions and list indexing\<close>

text \<open>
  The emulator of \<^verbatim>\<open>chip8.py\<close> works on Python's unbounded integers and on Python
  lists. An exception that leaves \<^verbatim>\<open>tick\<close> or \<^verbatim>\<open>load_rom\<close> ends the program, so
  a raising operation is the value \<open>Inl\<close> of the exception. The source itself can only
  raise \<open>IndexError\<close> and \<open>ZeroDivisionError\<close>; the last four constructors are the
  error names of the specification's taxonomy, which no path of the source produces.
\<close>

datatype error =
    IndexError
  | ZeroDivisionError
  | RomTooLarge
  | StackOverflow
  | StackUnderflow
  | UnknownOpcode int

definition bindE :: "error + 'a \<Rightarrow> ('a \<Rightarrow> error + 'b) \<Rightarrow> error + 'b" where
  "bindE m f = (case m of Inl e \<Rightarrow> Inl e | Inr v \<Rightarrow> f v)"

text \<open>\<^verbatim>\<open>xs[i]\<close>: a negative index counts from the end, anything else out of range raises.\<close>

definition py_index :: "'a list \<Rightarrow> int \<Rightarrow> error + nat" where
  "py_index xs i =
     (let n = int (length xs) in
      if 0 \<le> i \<and> i < n then Inr (nat i)
      else if - n \<le> i \<and> i < 0 then Inr (nat (n + i))
      else Inl IndexError)"

definition lget :: "'a list \<Rightarrow> int \<Rightarrow> error + 'a" where
  "lget xs i = bindE (py_index xs i) (\<lambda>k. Inr (xs ! k))"

definition lset :: "'a list \<Rightarrow> int \<Rightarrow> 'a \<Rightarrow> error + 'a list" where
  "lset xs i v = bindE (py_index xs i) (\<lambda>k. Inr (xs[k := v]))"

text \<open>\<^verbatim>\<open>a % b\<close>: floored, as \<open>mod\<close> on \<open>int\<close>, but raising for \<open>b = 0\<close>.\<close>

definition py_mod :: "int \<Rightarrow> int \<Rightarrow> error + int" where
  "py_mod a b = (if b = 0 then Inl ZeroDivisionError else Inr (a mod b))"

text \<open>\<^verbatim>\<open>range(n)\<close>\<close>

definition py_range :: "int \<Rightarrow> int list" where
  "py_range n = [0..n - 1]"

section \<open>The emulator state\<close>

text \<open>
  The attributes of \<^verbatim>\<open>Emulator\<close> that \<^verbatim>\<open>tick\<close>, \<^verbatim>\<open>set_pixel\<close>, \<^verbatim>\<open>update_timers\<close> and
  \<^verbatim>\<open>load_rom\<close> read or write. \<^verbatim>\<open>kb_interrupt\<close> is \<^verbatim>\<open>None\<close> or a key number.
\<close>

record emulator =
  resolution :: "int \<times> int"
  QUIRK_vF_reset :: bool
  QUIRK_memory :: bool
  QUIRK_disp_wait :: bool
  QUIRK_disp_wait_faker :: bool
  QUIRK_clipping :: bool
  QUIRK_shifting :: bool
  QUIRK_jumping :: bool
  mem :: "int list"
  regs :: "int list"
  i_reg :: int
  pc :: int
  stack :: "int list"
  sp :: int
  kb :: "int list"
  sound_timer :: int
  delay_timer :: int
  kb_interrupt :: "int option"
  interrupted :: bool
  disp :: "int list"

definition sprites :: "int list" where
  "sprites =
    [0xF0, 0x90, 0x90, 0x90, 0xF0,
     0x20, 0x60, 0x20, 0x20, 0x70,
     0xF0, 0x10, 0xF0, 0x80, 0xF0,
     0xF0, 0x10, 0xF0, 0x10, 0xF0,
     0x90, 0x90, 0xF0, 0x10, 0x10,
     0xF0, 0x80, 0xF0, 0x10, 0xF0,
     0xF0, 0x80, 0xF0, 0x90, 0xF0,
     0xF0, 0x10, 0x20, 0x40, 0x40,
     0xF0, 0x90, 0xF0, 0x90, 0xF0,
     0xF0, 0x90, 0xF0, 0x10, 0xF0,
     0xF0, 0x90, 0xF0, 0x90, 0x90,
     0xE0, 0x90, 0xE0, 0x90, 0xE0,
     0xF0, 0x80, 0x80, 0x80, 0xF0,
     0xE0, 0x90, 0x90, 0x90, 0xE0,
     0xF0, 0x80, 0xF0, 0x80, 0xF0,
     0xF0, 0x80, 0xF0, 0x80, 0x80]"

text \<open>\<^verbatim>\<open>[0] * w * h\<close>: a negative factor gives the empty list.\<close>

definition blank_disp :: "int \<times> int \<Rightarrow> int list" where
  "blank_disp r = replicate (nat (fst r) * nat (snd r)) 0"

text \<open>\<^verbatim>\<open>Emulator.__init__\<close> with an empty configuration, \<^verbatim>\<open>load_sprites\<close> included.\<close>

definition init :: emulator where
  "init = \<lparr> resolution = (64, 32),
            QUIRK_vF_reset = True, QUIRK_memory = True, QUIRK_disp_wait = True,
            QUIRK_disp_wait_faker = False, QUIRK_clipping = True,
            QUIRK_shifting = False, QUIRK_jumping = False,
            mem = sprites @ replicate 4016 0,
            regs = replicate 16 0, i_reg = 0, pc = 0x200,
            stack = replicate 48 0, sp = 0,
            kb = replicate 16 0,
            sound_timer = 0, delay_timer = 0,
            kb_interrupt = None, interrupted = False,
            disp = blank_disp (64, 32) \<rparr>"

section \<open>Loading a ROM\<close>



section \<open>Display and timers\<close>

definition set_pixel :: "emulator \<Rightarrow> int \<Rightarrow> int \<Rightarrow> error + (int \<times> emulator)" where
  "set_pixel s x y =
     (if QUIRK_clipping s \<and> (x \<ge> fst (resolution s) \<or> y \<ge> snd (resolution s)) then Inr (1, s)
      else if QUIRK_clipping s \<and> (x < 0 \<or> y < 0) then Inr (1, s)
      else
        bindE (py_mod x (fst (resolution s))) (\<lambda>xm.
        bindE (py_mod y (snd (resolution s))) (\<lambda>ym.
        let pos = xm + ym * 64 in
        bindE (lget (disp s) pos) (\<lambda>old.
        let new = (if old = 0 then 1 else 0) in
        bindE (lset (disp s) pos new) (\<lambda>d.
        Inr (if new = 0 then 1 else 0, s\<lparr>disp := d\<rparr>))))))"

definition update_timers :: "emulator \<Rightarrow> emulator" where
  "update_timers s =
     (let s1 = (if delay_timer s > 0 then s\<lparr>delay_timer := delay_timer s - 1\<rparr> else s)
      in if sound_timer s1 > 0 then s1\<lparr>sound_timer := sound_timer s1 - 1\<rparr> else s1)"

section \<open>Registers\<close>

definition get_reg :: "emulator \<Rightarrow> int \<Rightarrow> error + int" where
  "get_reg s i = lget (regs s) i"

definition set_reg :: "emulator \<Rightarrow> int \<Rightarrow> int \<Rightarrow> error + emulator" where
  "set_reg s i v = bindE (lset (regs s) i v) (\<lambda>r. Inr (s\<lparr>regs := r\<rparr>))"

section \<open>One instruction\<close>

text \<open>
  \<^verbatim>\<open>tick\<close> leaves either by reaching the statement after the \<^verbatim>\<open>match\<close> (\<open>Next\<close>) or by
  one of its two \<^verbatim>\<open>return\<close> statements (\<open>Return\<close>).
\<close>

datatype flow = Next emulator | Return emulator

definition cont :: "error + emulator \<Rightarrow> error + flow" where
  "cont m = bindE m (\<lambda>s. Inr (Next s))"

text \<open>\<^verbatim>\<open>opcode = self.mem[self.pc] << 8 | self.mem[self.pc + 1]\<close>\<close>

definition fetch :: "emulator \<Rightarrow> error + int" where
  "fetch s =
     bindE (lget (mem s) (pc s)) (\<lambda>hi.
     bindE (lget (mem s) (pc s + 1)) (\<lambda>lo.
     Inr (push_bit 8 hi OR lo)))"

subsection \<open>Family 0x0000: clear screen, return\<close>

definition op_00EE :: "emulator \<Rightarrow> error + emulator" where
  "op_00EE s =
     bindE (lget (stack s) (sp s)) (\<lambda>hi.
     bindE (py_mod (sp s - 1) (int (length (stack s)))) (\<lambda>sp1.
     bindE (lget (stack s) sp1) (\<lambda>lo.
     bindE (py_mod (sp1 - 1) (int (length (stack s)))) (\<lambda>sp2.
     Inr (s\<lparr>pc := push_bit 8 hi OR lo, sp := sp2\<rparr>)))))"

definition exec_0 :: "emulator \<Rightarrow> int \<Rightarrow> error + emulator" where
  "exec_0 s opcode =
     (let b = opcode AND 0x00FF in
      if b = 0xE0 then Inr (s\<lparr>disp := blank_disp (resolution s)\<rparr>)
      else if b = 0xEE then op_00EE s
      else Inr s)"

subsection \<open>Family 0x2000: call\<close>

definition op_2nnn :: "emulator \<Rightarrow> int \<Rightarrow> error + emulator" where
  "op_2nnn s opcode =
     bindE (py_mod (sp s + 1) (int (length (stack s)))) (\<lambda>sp1.
     bindE (lset (stack s) sp1 (pc s AND 0x00FF)) (\<lambda>st1.
     bindE (py_mod (sp1 + 1) (int (length st1))) (\<lambda>sp2.
     bindE (lset st1 sp2 (drop_bit 8 (pc s))) (\<lambda>st2.
     Inr (s\<lparr>stack := st2, sp := sp2, pc := opcode AND 0x0FFF\<rparr>)))))"

subsection \<open>Family 0x8000: register arithmetic\<close>

text \<open>
  Every statement of the source is one step here, each reading the registers as the
  previous statement left them: \<^verbatim>\<open>regs[x]\<close> and \<^verbatim>\<open>regs[0xF]\<close> are the same cell when
  \<open>x = 15\<close>.
\<close>

definition op_8xy4 :: "emulator \<Rightarrow> int \<Rightarrow> int \<Rightarrow> error + emulator" where
  "op_8xy4 s x y =
     bindE (get_reg s x) (\<lambda>vx.
     bindE (get_reg s y) (\<lambda>vy.
     bindE (set_reg s x (vx + vy)) (\<lambda>s1.
     bindE (get_reg s1 x) (\<lambda>vx1.
     bindE (set_reg s1 0xF (if vx1 > 0xFF then 1 else 0)) (\<lambda>s2.
     bindE (get_reg s2 x) (\<lambda>vx2.
     set_reg s2 x (vx2 AND 0x00FF)))))))"

definition op_8xy5 :: "emulator \<Rightarrow> int \<Rightarrow> int \<Rightarrow> error + emulator" where
  "op_8xy5 s x y =
     bindE (get_reg s x) (\<lambda>vx.
     bindE (get_reg s y) (\<lambda>vy.
     bindE (set_reg s x (vx - vy)) (\<lambda>s1.
     bindE (get_reg s1 x) (\<lambda>vx1.
     bindE (set_reg s1 0xF (if vx1 < 0 then 0 else 1)) (\<lambda>s2.
     bindE (get_reg s2 x) (\<lambda>vx2.
     set_reg s2 x (vx2 AND 0x00FF)))))))"

definition op_8xy7 :: "emulator \<Rightarrow> int \<Rightarrow> int \<Rightarrow> error + emulator" where
  "op_8xy7 s x y =
     bindE (get_reg s y) (\<lambda>vy.
     bindE (get_reg s x) (\<lambda>vx.
     bindE (set_reg s x (vy - vx)) (\<lambda>s1.
     bindE (get_reg s1 x) (\<lambda>vx1.
     bindE (set_reg s1 0xF (if vx1 < 0 then 0 else 1)) (\<lambda>s2.
     bindE (get_reg s2 x) (\<lambda>vx2.
     set_reg s2 x (vx2 AND 0x00FF)))))))"

text \<open>\<^verbatim>\<open>if not self.QUIRK_shifting: self.regs[x] = self.regs[y]\<close>\<close>

definition shift_source :: "emulator \<Rightarrow> int \<Rightarrow> int \<Rightarrow> error + emulator" where
  "shift_source s x y =
     (if QUIRK_shifting s then Inr s else bindE (get_reg s y) (\<lambda>vy. set_reg s x vy))"

definition op_8xy6 :: "emulator \<Rightarrow> int \<Rightarrow> int \<Rightarrow> error + emulator" where
  "op_8xy6 s x y =
     bindE (shift_source s x y) (\<lambda>s0.
     bindE (get_reg s0 x) (\<lambda>Rx.
     bindE (set_reg s0 x (drop_bit 1 Rx)) (\<lambda>s1.
     bindE (set_reg s1 0xF (Rx AND 0x0001)) (\<lambda>s2.
     bindE (get_reg s2 x) (\<lambda>vx2.
     set_reg s2 x (vx2 AND 0x00FF))))))"

definition op_8xyE :: "emulator \<Rightarrow> int \<Rightarrow> int \<Rightarrow> error + emulator" where
  "op_8xyE s x y =
     bindE (shift_source s x y) (\<lambda>s0.
     bindE (get_reg s0 x) (\<lambda>Rx.
     bindE (set_reg s0 x (push_bit 1 Rx)) (\<lambda>s1.
     bindE (set_reg s1 0xF (drop_bit 7 (Rx AND 0x0080))) (\<lambda>s2.
     bindE (get_reg s2 x) (\<lambda>vx2.
     set_reg s2 x (vx2 AND 0x00FF))))))"

text \<open>\<^verbatim>\<open>regs[x] |= regs[y]\<close> and its two siblings, then the \<^verbatim>\<open>vF_reset\<close> quirk.\<close>

definition op_logic :: "(int \<Rightarrow> int \<Rightarrow> int) \<Rightarrow> emulator \<Rightarrow> int \<Rightarrow> int \<Rightarrow> error + emulator" where
  "op_logic f s x y =
     bindE (get_reg s x) (\<lambda>vx.
     bindE (get_reg s y) (\<lambda>vy.
     bindE (set_reg s x (f vx vy)) (\<lambda>s1.
     if QUIRK_vF_reset s1 then set_reg s1 0xF 0 else Inr s1)))"

definition exec_8 :: "emulator \<Rightarrow> int \<Rightarrow> int \<Rightarrow> int \<Rightarrow> error + emulator" where
  "exec_8 s opcode x y =
     (let n = opcode AND 0x000F in
      if n = 0x0000 then bindE (get_reg s y) (\<lambda>vy. set_reg s x vy)
      else if n = 0x0001 then op_logic (OR) s x y
      else if n = 0x0002 then op_logic (AND) s x y
      else if n = 0x0003 then op_logic (XOR) s x y
      else if n = 0x0004 then op_8xy4 s x y
      else if n = 0x0005 then op_8xy5 s x y
      else if n = 0x0006 then op_8xy6 s x y
      else if n = 0x0007 then op_8xy7 s x y
      else if n = 0x000E then op_8xyE s x y
      else Inr s)"

subsection \<open>Family 0xD000: draw\<close>

text \<open>
  The inner loop over \<^verbatim>\<open>col\<close>, the local \<^verbatim>\<open>sprite\<close> shifted left after every column.
  The registers are read again for every pixel.
\<close>

fun draw_cols :: "emulator \<Rightarrow> int \<Rightarrow> int \<Rightarrow> int \<Rightarrow> int \<Rightarrow> int list \<Rightarrow> error + emulator" where
  "draw_cols s x y row sprite [] = Inr s"
| "draw_cols s x y row sprite (col # cols) =
     (case (if (sprite AND 0x80) > 0 then
              bindE (get_reg s x) (\<lambda>vx.
              bindE (get_reg s y) (\<lambda>vy.
              bindE (set_pixel s (vx mod 64 + col) (vy mod 32 + row)) (\<lambda>(hit, s1).
              if hit \<noteq> 0 then set_reg s1 0xF 1 else Inr s1)))
            else Inr s) of
        Inl e \<Rightarrow> Inl e
      | Inr s2 \<Rightarrow> draw_cols s2 x y row (push_bit 1 sprite AND 0x00FF) cols)"

text \<open>The outer loop over \<^verbatim>\<open>row\<close>; \<^verbatim>\<open>width = 8\<close>.\<close>

fun draw_rows :: "emulator \<Rightarrow> int \<Rightarrow> int \<Rightarrow> int list \<Rightarrow> error + emulator" where
  "draw_rows s x y [] = Inr s"
| "draw_rows s x y (row # rows) =
     (case lget (mem s) (i_reg s + row) of
        Inl e \<Rightarrow> Inl e
      | Inr sprite \<Rightarrow>
          (case draw_cols s x y row sprite (py_range 8) of
             Inl e \<Rightarrow> Inl e
           | Inr s' \<Rightarrow> draw_rows s' x y rows))"

text \<open>\<^verbatim>\<open>height = opcode & 0x000F\<close>, \<^verbatim>\<open>self.regs[0xF] = 0\<close>, then the two loops.\<close>

definition draw_sprite :: "emulator \<Rightarrow> int \<Rightarrow> int \<Rightarrow> int \<Rightarrow> error + emulator" where
  "draw_sprite s opcode x y =
     bindE (set_reg s 0xF 0) (\<lambda>s1. draw_rows s1 x y (py_range (opcode AND 0x000F)))"

definition exec_D :: "emulator \<Rightarrow> int \<Rightarrow> int \<Rightarrow> int \<Rightarrow> error + flow" where
  "exec_D s opcode x y =
     (if QUIRK_disp_wait s then
        (if QUIRK_disp_wait_faker s then cont (draw_sprite (update_timers s) opcode x y)
         else if interrupted s then cont (draw_sprite (s\<lparr>interrupted := False\<rparr>) opcode x y)
         else Inr (Return (s\<lparr>pc := pc s - 2\<rparr>)))
      else cont (draw_sprite s opcode x y))"

subsection \<open>Family 0xE000: key skips\<close>

definition exec_E :: "emulator \<Rightarrow> int \<Rightarrow> int \<Rightarrow> error + emulator" where
  "exec_E s opcode x =
     (let b = opcode AND 0x00FF in
      if b = 0x009E then
        bindE (get_reg s x) (\<lambda>vx.
        bindE (lget (kb s) vx) (\<lambda>k.
        Inr (if k \<noteq> 0 then s\<lparr>pc := pc s + 2\<rparr> else s)))
      else if b = 0x00A1 then
        bindE (get_reg s x) (\<lambda>vx.
        bindE (lget (kb s) vx) (\<lambda>k.
        Inr (if k = 0 then s\<lparr>pc := pc s + 2\<rparr> else s)))
      else Inr s)"

subsection \<open>Family 0xF000: timers, key wait, memory\<close>

definition op_Fx33 :: "emulator \<Rightarrow> int \<Rightarrow> error + emulator" where
  "op_Fx33 s x =
     bindE (get_reg s x) (\<lambda>v0.
     bindE (lset (mem s) (i_reg s + 0) (v0 div 100)) (\<lambda>m0.
     bindE (get_reg s x) (\<lambda>v1.
     bindE (lset m0 (i_reg s + 1) ((v1 mod 100) div 10)) (\<lambda>m1.
     bindE (get_reg s x) (\<lambda>v2.
     bindE (lset m1 (i_reg s + 2) (v2 mod 10)) (\<lambda>m2.
     Inr (s\<lparr>mem := m2\<rparr>)))))))"

text \<open>\<^verbatim>\<open>for i in range(x + 1): self.mem[self.i_reg + i] = self.regs[i]\<close>\<close>

fun store_regs :: "emulator \<Rightarrow> int list \<Rightarrow> error + emulator" where
  "store_regs s [] = Inr s"
| "store_regs s (i # rest) =
     (case get_reg s i of
        Inl e \<Rightarrow> Inl e
      | Inr v \<Rightarrow>
          (case lset (mem s) (i_reg s + i) v of
             Inl e \<Rightarrow> Inl e
           | Inr m \<Rightarrow> store_regs (s\<lparr>mem := m\<rparr>) rest))"

text \<open>\<^verbatim>\<open>for i in range(x + 1): self.regs[i] = self.mem[self.i_reg + i]\<close>\<close>

fun load_regs :: "emulator \<Rightarrow> int list \<Rightarrow> error + emulator" where
  "load_regs s [] = Inr s"
| "load_regs s (i # rest) =
     (case lget (mem s) (i_reg s + i) of
        Inl e \<Rightarrow> Inl e
      | Inr v \<Rightarrow>
          (case set_reg s i v of
             Inl e \<Rightarrow> Inl e
           | Inr s' \<Rightarrow> load_regs s' rest))"

text \<open>\<^verbatim>\<open>if self.QUIRK_memory: self.i_reg += x + 1; self.i_reg &= 0x0FFF\<close>\<close>

definition advance_i :: "emulator \<Rightarrow> int \<Rightarrow> emulator" where
  "advance_i s x =
     (if QUIRK_memory s then s\<lparr>i_reg := (i_reg s + (x + 1)) AND 0x0FFF\<rparr> else s)"

definition exec_F :: "emulator \<Rightarrow> int \<Rightarrow> int \<Rightarrow> error + flow" where
  "exec_F s opcode x =
     (let b = opcode AND 0x00FF in
      if b = 0x0007 then cont (set_reg s x (delay_timer s))
      else if b = 0x000A then
        (case kb_interrupt s of
           Some k \<Rightarrow> cont (bindE (set_reg s x k) (\<lambda>s1. Inr (s1\<lparr>kb_interrupt := None\<rparr>)))
         | None \<Rightarrow> Inr (Return (s\<lparr>pc := pc s - 2\<rparr>)))
      else if b = 0x0015 then cont (bindE (get_reg s x) (\<lambda>vx. Inr (s\<lparr>delay_timer := vx\<rparr>)))
      else if b = 0x0018 then cont (bindE (get_reg s x) (\<lambda>vx. Inr (s\<lparr>sound_timer := vx\<rparr>)))
      else if b = 0x001E then
        cont (bindE (get_reg s x) (\<lambda>vx. Inr (s\<lparr>i_reg := (i_reg s + vx) AND 0x0FFF\<rparr>)))
      else if b = 0x0029 then
        cont (bindE (get_reg s x) (\<lambda>vx. Inr (s\<lparr>i_reg := (vx * 5) AND 0x0FFF\<rparr>)))
      else if b = 0x0033 then cont (op_Fx33 s x)
      else if b = 0x0055 then
        cont (bindE (store_regs s (py_range (x + 1))) (\<lambda>s1. Inr (advance_i s1 x)))
      else if b = 0x0065 then
        cont (bindE (load_regs s (py_range (x + 1))) (\<lambda>s1. Inr (advance_i s1 x)))
      else Inr (Next s))"

subsection \<open>The dispatcher and \<^verbatim>\<open>tick\<close>\<close>

text \<open>
  \<open>exec\<close> is the \<^verbatim>\<open>match opcode & 0xF000\<close> statement, run on the state whose \<^verbatim>\<open>pc\<close> is
  already advanced. \<open>rnd\<close> is the value that \<^verbatim>\<open>random.randint(0, 255)\<close> returns in this
  step; it is the only input of a step that is not part of the emulator.
\<close>

definition skip_if :: "bool \<Rightarrow> emulator \<Rightarrow> emulator" where
  "skip_if c s = (if c then s\<lparr>pc := pc s + 2\<rparr> else s)"

definition exec :: "int \<Rightarrow> emulator \<Rightarrow> int \<Rightarrow> error + flow" where
  "exec rnd s opcode =
     (let x = drop_bit 8 (opcode AND 0x0F00);
          y = drop_bit 4 (opcode AND 0x00F0);
          f = opcode AND 0xF000 in
      if f = 0x0000 then cont (exec_0 s opcode)
      else if f = 0x1000 then Inr (Next (s\<lparr>pc := opcode AND 0x0FFF\<rparr>))
      else if f = 0x2000 then cont (op_2nnn s opcode)
      else if f = 0x3000 then
        cont (bindE (get_reg s x) (\<lambda>vx. Inr (skip_if (vx = opcode AND 0x00FF) s)))
      else if f = 0x4000 then
        cont (bindE (get_reg s x) (\<lambda>vx. Inr (skip_if (vx \<noteq> opcode AND 0x00FF) s)))
      else if f = 0x5000 then
        cont (bindE (get_reg s x) (\<lambda>vx. bindE (get_reg s y) (\<lambda>vy. Inr (skip_if (vx = vy) s))))
      else if f = 0x6000 then cont (set_reg s x (opcode AND 0x00FF))
      else if f = 0x7000 then
        cont (bindE (get_reg s x) (\<lambda>vx. set_reg s x ((vx + (opcode AND 0x00FF)) AND 0x00FF)))
      else if f = 0x8000 then cont (exec_8 s opcode x y)
      else if f = 0x9000 then
        cont (bindE (get_reg s x) (\<lambda>vx. bindE (get_reg s y) (\<lambda>vy. Inr (skip_if (vx \<noteq> vy) s))))
      else if f = 0xA000 then Inr (Next (s\<lparr>i_reg := opcode AND 0x0FFF\<rparr>))
      else if f = 0xB000 then
        cont (bindE (get_reg s (if QUIRK_jumping s then x else 0))
               (\<lambda>v. Inr (s\<lparr>pc := (opcode AND 0x0FFF) + v\<rparr>)))
      else if f = 0xC000 then cont (set_reg s x (rnd AND (opcode AND 0x00FF)))
      else if f = 0xD000 then exec_D s opcode x y
      else if f = 0xE000 then cont (exec_E s opcode x)
      else if f = 0xF000 then exec_F s opcode x
      else Inr (Next s))"

text \<open>
  \<^verbatim>\<open>tick\<close>: fetch, \<^verbatim>\<open>self.pc += 2\<close>, the \<^verbatim>\<open>match\<close>, and \<^verbatim>\<open>self.kb_interrupt = None\<close> as the
  last statement, which a \<^verbatim>\<open>return\<close> inside the \<^verbatim>\<open>match\<close> does not reach.
\<close>

definition finish :: "flow \<Rightarrow> emulator" where
  "finish r = (case r of Next s \<Rightarrow> s\<lparr>kb_interrupt := None\<rparr> | Return s \<Rightarrow> s)"

definition tick :: "int \<Rightarrow> emulator \<Rightarrow> error + emulator" where
  "tick rnd s =
     bindE (fetch s) (\<lambda>opcode.
     bindE (exec rnd (s\<lparr>pc := pc s + 2\<rparr>) opcode) (\<lambda>r.
     Inr (finish r)))"

text \<open>
  \<^verbatim>\<open>for _ in range(self.ipf): self.tick()\<close> of \<^verbatim>\<open>cycle\<close>: one tick per element of
  \<open>rnds\<close>, the random bytes the ticks would draw. An exception ends the run.
\<close>

fun run :: "int list \<Rightarrow> emulator \<Rightarrow> error + emulator" where
  "run [] s = Inr s"
| "run (rnd # rnds) s = (case tick rnd s of Inl e \<Rightarrow> Inl e | Inr s' \<Rightarrow> run rnds s')"

text \<open>
  The instruction words that no \<^verbatim>\<open>case\<close> of the \<^verbatim>\<open>match\<close> statements takes: the families
  \<open>0x0\<close>, \<open>0x8\<close>, \<open>0xE\<close> and \<open>0xF\<close> have an inner \<^verbatim>\<open>match\<close> without a default; the other
  families take every word.
\<close>

definition unmatched :: "int \<Rightarrow> bool" where
  "unmatched opcode =
     (let f = opcode AND 0xF000; b = opcode AND 0x00FF; n = opcode AND 0x000F in
      (f = 0x0000 \<and> b \<noteq> 0xE0 \<and> b \<noteq> 0xEE) \<or>
      (f = 0x8000 \<and> n \<noteq> 0 \<and> n \<noteq> 1 \<and> n \<noteq> 2 \<and> n \<noteq> 3 \<and> n \<noteq> 4 \<and> n \<noteq> 5 \<and> n \<noteq> 6 \<and> n \<noteq> 7
         \<and> n \<noteq> 0xE) \<or>
      (f = 0xE000 \<and> b \<noteq> 0x9E \<and> b \<noteq> 0xA1) \<or>
      (f = 0xF000 \<and> b \<noteq> 0x07 \<and> b \<noteq> 0x0A \<and> b \<noteq> 0x15 \<and> b \<noteq> 0x18 \<and> b \<noteq> 0x1E \<and> b \<noteq> 0x29
         \<and> b \<noteq> 0x33 \<and> b \<noteq> 0x55 \<and> b \<noteq> 0x65))"

section \<open>Matching calls and returns\<close>

text \<open>
  Notions for stating the call/return round trip. \<open>is_call s\<close> and \<open>is_return s\<close>: the
  word at PC is a \<^verbatim>\<open>2nnn\<close>, a \<^verbatim>\<open>00EE\<close>. \<open>nested d s t\<close>: the emulator gets from \<open>s\<close> to
  \<open>t\<close> by ticks in which every call is followed, later, by its matching return, and at
  most \<open>d\<close> calls are ever pending at once. \<open>window p d\<close>: the stack slots that \<open>d\<close>
  pending calls above stack pointer \<open>p\<close> can write.
\<close>

definition is_call :: "emulator \<Rightarrow> bool" where
  "is_call s = (case fetch s of Inl e \<Rightarrow> False | Inr opcode \<Rightarrow> opcode AND 0xF000 = 0x2000)"

definition is_return :: "emulator \<Rightarrow> bool" where
  "is_return s =
     (case fetch s of Inl e \<Rightarrow> False
      | Inr opcode \<Rightarrow> opcode AND 0xF000 = 0x0000 \<and> opcode AND 0x00FF = 0xEE)"

inductive nested :: "nat \<Rightarrow> emulator \<Rightarrow> emulator \<Rightarrow> bool" where
  finished: "nested d s s"
| other: "\<not> is_call s \<Longrightarrow> \<not> is_return s \<Longrightarrow> tick rnd s = Inr s' \<Longrightarrow> nested d s' t \<Longrightarrow>
          nested d s t"
| inner: "is_call s \<Longrightarrow> tick rnd s = Inr s1 \<Longrightarrow> nested d s1 s2 \<Longrightarrow>
          is_return s2 \<Longrightarrow> tick rnd' s2 = Inr s3 \<Longrightarrow> nested (Suc d) s3 t \<Longrightarrow>
          nested (Suc d) s t"

definition window :: "int \<Rightarrow> nat \<Rightarrow> int set" where
  "window p d = {(p + int j) mod 48 | j. 1 \<le> j \<and> j \<le> 2 * d}"

section \<open>Example states\<close>

text \<open>
  Freshly constructed emulators with a few bytes of program at \<open>0x200\<close> and some
  registers set, for the concrete runs below.
\<close>

definition ex_8014 :: emulator where
  "ex_8014 = init\<lparr>mem := (mem init)[512 := 0x80, 513 := 0x14],
                  regs := (regs init)[0 := 200, 1 := 100]\<rparr>"

definition ex_8F14 :: emulator where
  "ex_8F14 = init\<lparr>mem := (mem init)[512 := 0x8F, 513 := 0x14],
                  regs := (regs init)[15 := 3, 1 := 4]\<rparr>"

definition ex_wait :: emulator where
  "ex_wait = init\<lparr>mem := (mem init)[512 := 0xD0, 513 := 0x01], kb_interrupt := Some 5\<rparr>"

definition ex_clip :: emulator where
  "ex_clip = init\<lparr>mem := (mem init)[512 := 0xD0, 513 := 0x11],
                  regs := (regs init)[0 := 62], interrupted := True\<rparr>"

definition ex_unknown :: emulator where
  "ex_unknown = init\<lparr>mem := (mem init)[512 := 0x80, 513 := 0x1F], kb_interrupt := Some 7\<rparr>"

definition ex_00EE :: emulator where
  "ex_00EE = init\<lparr>mem := (mem init)[512 := 0x00, 513 := 0xEE]\<rparr>"

definition ex_drawA :: emulator where
  "ex_drawA = init\<lparr>mem := (mem init)[512 := 0xD0, 513 := 0x01], interrupted := True\<rparr>"

definition ex_drawB :: emulator where
  "ex_drawB = ex_drawA\<lparr>disp := (disp ex_drawA)[0 := 1]\<rparr>"

definition ex_call :: emulator where
  "ex_call = init\<lparr>mem := (mem init)[512 := 0x22, 513 := 0x04, 516 := 0x00, 517 := 0xEE]\<rparr>"

definition ex_self_call :: emulator where
  "ex_self_call = init\<lparr>mem := (mem init)[512 := 0x22, 513 := 0x00]\<rparr>"

definition ex_nest :: emulator where
  "ex_nest = init\<lparr>mem := (mem init)[512 := 0x22, 513 := 0x04, 516 := 0x22, 517 := 0x08,
                                       518 := 0x00, 519 := 0xEE, 520 := 0x60, 521 := 0x07,
                                       522 := 0x00, 523 := 0xEE]\<rparr>"

definition ex_nest1 :: emulator where
  "ex_nest1 = ex_nest\<lparr>stack := (stack ex_nest)[1 := 0x02, 2 := 0x02], sp := 2, pc := 0x204\<rparr>"

definition ex_nestA :: emulator where
  "ex_nestA = ex_nest1\<lparr>stack := (stack ex_nest1)[3 := 0x06, 4 := 0x02], sp := 4, pc := 0x208\<rparr>"

definition ex_nestB :: emulator where
  "ex_nestB = ex_nestA\<lparr>regs := (regs ex_nestA)[0 := 7], pc := 0x20A\<rparr>"

definition ex_nest2 :: emulator where
  "ex_nest2 = ex_nestB\<lparr>pc := 0x206, sp := 2\<rparr>"



section \<open>Basic facts\<close>

lemma bindE_Inr [simp]: "bindE (Inr v) f = f v"
  by (simp add: bindE_def)

lemma bindE_Inl [simp]: "bindE (Inl e) f = Inl e"
  by (simp add: bindE_def)

lemma lget_in: "0 \<le> i \<Longrightarrow> i < int (length xs) \<Longrightarrow> lget xs i = Inr (xs ! nat i)"
  by (simp add: lget_def py_index_def)

lemma lset_in: "0 \<le> i \<Longrightarrow> i < int (length xs) \<Longrightarrow> lset xs i v = Inr (xs[nat i := v])"
  by (simp add: lset_def py_index_def)



lemma get_reg_in:
  "length (regs s) = 16 \<Longrightarrow> 0 \<le> i \<Longrightarrow> i < 16 \<Longrightarrow> get_reg s i = Inr (regs s ! nat i)"
  by (simp add: get_reg_def lget_in)

lemma set_reg_in:
  "length (regs s) = 16 \<Longrightarrow> 0 \<le> i \<Longrightarrow> i < 16 \<Longrightarrow>
   set_reg s i v = Inr (s\<lparr>regs := (regs s)[nat i := v]\<rparr>)"
  by (simp add: set_reg_def lset_in)

lemma and_255: "(p::int) AND 255 = take_bit 8 p"
  by (simp add: take_bit_eq_mask mask_eq_exp_minus_1)

lemma and_255_mod: "(p::int) AND 255 = p mod 256"
  by (simp add: and_255 take_bit_eq_mod)

text \<open>The register numbers decoded from an instruction word are always 0 to 15.\<close>

lemma x_range:
  "0 \<le> drop_bit 8 ((opcode::int) AND 0x0F00) \<and> drop_bit 8 (opcode AND 0x0F00) < 16"
proof -
  have "opcode AND 0x0F00 \<le> 0x0F00" by (rule AND_upper2) simp
  then have "(opcode AND 0x0F00) div 256 \<le> 0x0F00 div 256" by (rule zdiv_mono1) simp
  moreover have "0 \<le> (opcode AND 0x0F00) div 256" by (simp add: pos_imp_zdiv_nonneg_iff)
  ultimately show ?thesis by (simp add: drop_bit_eq_div)
qed

lemma y_range:
  "0 \<le> drop_bit 4 ((opcode::int) AND 0x00F0) \<and> drop_bit 4 (opcode AND 0x00F0) < 16"
proof -
  have "opcode AND 0x00F0 \<le> 0x00F0" by (rule AND_upper2) simp
  then have "(opcode AND 0x00F0) div 16 \<le> 0x00F0 div 16" by (rule zdiv_mono1) simp
  moreover have "0 \<le> (opcode AND 0x00F0) div 16" by (simp add: pos_imp_zdiv_nonneg_iff)
  ultimately show ?thesis by (simp add: drop_bit_eq_div)
qed

lemma length_sprites: "length sprites = 80"
  by (simp add: sprites_def)


section \<open>8xy4: addition with carry\<close>

lemma op_8xy4_eq:
  assumes "length (regs s) = 16" and "0 \<le> x" "x < 16" and "0 \<le> y" "y < 16"
  shows "op_8xy4 s x y =
     Inr (s\<lparr>regs := (let a = regs s ! nat x; b = regs s ! nat y;
                          r1 = (regs s)[nat x := a + b];
                          r2 = r1[15 := (if r1 ! nat x > 255 then 1 else 0)]
                      in r2[nat x := (r2 ! nat x) AND 255])\<rparr>)"
  using assms by (simp add: op_8xy4_def get_reg_in set_reg_in Let_def)

text \<open>
  C3, as the code has it. With \<open>a = Vx\<close> and \<open>b = Vy\<close> before the step, \<^verbatim>\<open>8xy4\<close> always
  completes, leaves the carry in VF (1 exactly when \<open>a + b > 255\<close>), and leaves
  \<open>(a + b) mod 256\<close> in Vx for every destination other than VF itself. The register
  values need not even be bytes for this.
\<close>

theorem add_carry:
  assumes len: "length (regs s) = 16"
    and f: "fetch s = Inr opcode"
    and fam: "opcode AND 0xF000 = 0x8000" and low: "opcode AND 0x000F = 0x0004"
    and x: "x = nat (drop_bit 8 (opcode AND 0x0F00))"
    and y: "y = nat (drop_bit 4 (opcode AND 0x00F0))"
    and a: "a = regs s ! x" and b: "b = regs s ! y"
  shows "\<exists>s'. tick rnd s = Inr s' \<and>
           regs s' ! 15 = (if a + b > 255 then 1 else 0) \<and>
           (x \<noteq> 15 \<longrightarrow> regs s' ! x = (a + b) mod 256)"
proof -
  let ?x = "drop_bit 8 (opcode AND 0x0F00)" and ?y = "drop_bit 4 (opcode AND 0x00F0)"
  have xr: "0 \<le> ?x" "?x < 16" and yr: "0 \<le> ?y" "?y < 16"
    using x_range[of opcode] y_range[of opcode] by auto
  have xn: "x < 16" using xr x by linarith
  have e: "exec rnd (s\<lparr>pc := pc s + 2\<rparr>) opcode = cont (op_8xy4 (s\<lparr>pc := pc s + 2\<rparr>) ?x ?y)"
    by (simp add: exec_def exec_8_def fam low Let_def)
  have t: "tick rnd s = Inr (finish (Next (s\<lparr>pc := pc s + 2,
      regs := (let r1 = (regs s)[x := a + b];
                   r2 = r1[15 := (if r1 ! x > 255 then 1 else 0)]
               in r2[x := (r2 ! x) AND 255])\<rparr>)))"
    using len by (simp add: tick_def f e cont_def op_8xy4_eq xr yr Let_def x y a b)
  show ?thesis
    unfolding t using xn len
    by (auto simp: finish_def Let_def nth_list_update and_255_mod)
qed

lemma fetch_ex_8014: "fetch ex_8014 = Inr 0x8014"
  by (simp add: fetch_def ex_8014_def init_def lget_in length_sprites nth_append)

theorem add_carry_witness:
  "length (regs ex_8014) = 16 \<and> fetch ex_8014 = Inr 0x8014 \<and>
   (\<exists>s'. tick 0 ex_8014 = Inr s' \<and> regs s' ! 15 = 1 \<and> regs s' ! 0 = 44)"
proof -
  have len: "length (regs ex_8014) = 16" by (simp add: ex_8014_def init_def)
  have a: "regs ex_8014 ! 0 = 200" and b: "regs ex_8014 ! 1 = 100"
    by (simp_all add: ex_8014_def init_def)
  from add_carry [OF len fetch_ex_8014, of 0 1 200 100 0]
  show ?thesis using len fetch_ex_8014 a b by simp
qed

text \<open>
  With VF as the destination the sum is lost: \<^verbatim>\<open>8F14\<close> on VF = 3, V1 = 4 leaves the
  carry 0 in VF, not 7.
\<close>

theorem add_carry_into_VF_counterexample:
  "tick 0 ex_8F14 = Inr (ex_8F14\<lparr>pc := 514, regs := (regs ex_8F14)[15 := 0]\<rparr>) \<and>
   (regs ex_8F14 ! 15 + regs ex_8F14 ! 1) mod 256 = 7"
  by code_simp

section \<open>Determinism of a step\<close>

text \<open>The random byte reaches the dispatcher only in the \<^verbatim>\<open>Cxnn\<close> case.\<close>

lemma exec_rnd: "opcode AND 0xF000 \<noteq> 0xC000 \<Longrightarrow> exec r1 s opcode = exec r2 s opcode"
  by (simp add: exec_def Let_def)


text \<open>
  C10, with the state named in full. A step is a function of the emulator state and of
  the random byte drawn in the step. The state is memory, registers, I, PC, stack, stack
  pointer, timers, key states, key latch and interrupted flag, and also the display
  buffer and the settings (quirks and resolution), which \<^verbatim>\<open>Dxyn\<close> and \<^verbatim>\<open>00E0\<close> read.
  Unless the fetched word belongs to family \<open>0xC\<close>, the outcome (the successor state, or
  the exception) does not depend on the random byte: two executions from the same state
  agree whatever the random source returns.
\<close>

theorem tick_deterministic:
  assumes "\<And>opcode. fetch s = Inr opcode \<Longrightarrow> opcode AND 0xF000 \<noteq> 0xC000"
  shows "tick r1 s = tick r2 s"
proof (cases "fetch s")
  case (Inl e)
  then show ?thesis by (simp add: tick_def)
next
  case (Inr opcode)
  with assms have "opcode AND 0xF000 \<noteq> 0xC000" by simp
  then have "exec r1 (s\<lparr>pc := pc s + 2\<rparr>) opcode = exec r2 (s\<lparr>pc := pc s + 2\<rparr>) opcode"
    by (rule exec_rnd)
  with Inr show ?thesis by (simp add: tick_def)
qed

theorem tick_deterministic_witness: "tick 0 ex_8014 = tick 255 ex_8014"
  using tick_deterministic [of ex_8014 0 255] by (simp add: fetch_ex_8014)

lemma tick_ex_drawA:
  "tick 0 ex_drawA = Inr (ex_drawA\<lparr>pc := 514, interrupted := False,
      disp := (disp ex_drawA)[0 := 1, 1 := 1, 2 := 1, 3 := 1]\<rparr>)"
  by code_simp

lemma tick_ex_drawB:
  "tick 0 ex_drawB = Inr (ex_drawB\<lparr>pc := 514, interrupted := False,
      regs := (regs ex_drawB)[15 := 1],
      disp := (disp ex_drawB)[0 := 0, 1 := 1, 2 := 1, 3 := 1]\<rparr>)"
  by code_simp

lemma fetch_ex_drawA: "fetch ex_drawA = Inr 0xD001"
  by (simp add: fetch_def ex_drawA_def init_def lget_in length_sprites nth_append)

text \<open>
  The display buffer cannot be left out of the state. Two emulators that agree on memory,
  registers, I, PC, stack, stack pointer, timers, key states, key latch and interrupted
  flag, and differ in one pixel of the display, both execute \<^verbatim>\<open>D001\<close>; one ends with
  VF = 0, the other with VF = 1.
\<close>

theorem display_decides_VF_counterexample:
  "mem ex_drawA = mem ex_drawB \<and> regs ex_drawA = regs ex_drawB \<and>
   i_reg ex_drawA = i_reg ex_drawB \<and> pc ex_drawA = pc ex_drawB \<and>
   stack ex_drawA = stack ex_drawB \<and> sp ex_drawA = sp ex_drawB \<and>
   sound_timer ex_drawA = sound_timer ex_drawB \<and> delay_timer ex_drawA = delay_timer ex_drawB \<and>
   kb ex_drawA = kb ex_drawB \<and> kb_interrupt ex_drawA = kb_interrupt ex_drawB \<and>
   interrupted ex_drawA = interrupted ex_drawB \<and>
   fetch ex_drawA = Inr 0xD001 \<and> fetch ex_drawB = Inr 0xD001 \<and>
   tick 0 ex_drawA = Inr (ex_drawA\<lparr>pc := 514, interrupted := False,
      disp := (disp ex_drawA)[0 := 1, 1 := 1, 2 := 1, 3 := 1]\<rparr>) \<and>
   tick 0 ex_drawB = Inr (ex_drawB\<lparr>pc := 514, interrupted := False,
      regs := (regs ex_drawB)[15 := 1],
      disp := (disp ex_drawB)[0 := 0, 1 := 1, 2 := 1, 3 := 1]\<rparr>)"
proof -
  have "fetch ex_drawB = fetch ex_drawA" by (simp add: fetch_def ex_drawB_def)
  then show ?thesis
    using tick_ex_drawA tick_ex_drawB fetch_ex_drawA by (simp add: ex_drawB_def)
qed

section \<open>The key latch and the display wait\<close>

text \<open>
  C4 at a concrete state: the first instruction of a fresh emulator is \<^verbatim>\<open>D001\<close>, the
  display wait is on, no frame has been rendered yet, and key 5 is latched. The step
  takes the \<^verbatim>\<open>return\<close> of the display wait, so the emulator is exactly as before and the
  latch still holds key 5.
\<close>

theorem wait_keeps_latch: "tick 0 ex_wait = Inr ex_wait \<and> kb_interrupt ex_wait = Some 5"
  by code_simp

section \<open>Clipped pixels and VF\<close>

text \<open>
  C1 at a concrete state: blank display, V0 = 62, V1 = 0, I = 0 (the font byte
  \<open>0xF0\<close>), clipping on, instruction \<^verbatim>\<open>D011\<close>. The sprite's pixels at columns 62 and 63
  are drawn, those at columns 64 and 65 are skipped, no pixel goes from set to clear, and
  VF ends as 1.
\<close>

theorem clipped_pixel_sets_VF:
  "tick 0 ex_clip = Inr (ex_clip\<lparr>pc := 514, interrupted := False,
      regs := (regs ex_clip)[15 := 1], disp := (disp ex_clip)[62 := 1, 63 := 1]\<rparr>)
   \<and> disp ex_clip = replicate 2048 0"
  by code_simp

section \<open>Words that no case matches\<close>

lemma unmatched_exec:
  assumes "unmatched opcode"
  shows "exec rnd s opcode = Inr (Next s)"
proof -
  let ?f = "opcode AND 0xF000" and ?b = "opcode AND 0x00FF" and ?n = "opcode AND 0x000F"
  consider
    (zero) "?f = 0x0000" "?b \<noteq> 0xE0" "?b \<noteq> 0xEE"
  | (eight) "?f = 0x8000" "?n \<noteq> 0" "?n \<noteq> 1" "?n \<noteq> 2" "?n \<noteq> 3" "?n \<noteq> 4" "?n \<noteq> 5"
      "?n \<noteq> 6" "?n \<noteq> 7" "?n \<noteq> 0xE"
  | (keys) "?f = 0xE000" "?b \<noteq> 0x9E" "?b \<noteq> 0xA1"
  | (misc) "?f = 0xF000" "?b \<noteq> 0x07" "?b \<noteq> 0x0A" "?b \<noteq> 0x15" "?b \<noteq> 0x18" "?b \<noteq> 0x1E"
      "?b \<noteq> 0x29" "?b \<noteq> 0x33" "?b \<noteq> 0x55" "?b \<noteq> 0x65"
    using assms unfolding unmatched_def Let_def by blast
  then show ?thesis
  proof cases
    case zero
    then show ?thesis by (simp add: exec_def exec_0_def cont_def Let_def)
  next
    case eight
    then show ?thesis by (simp add: exec_def exec_8_def cont_def Let_def)
  next
    case keys
    then show ?thesis by (simp add: exec_def exec_E_def cont_def Let_def)
  next
    case misc
    then show ?thesis by (simp add: exec_def exec_F_def cont_def Let_def)
  qed
qed

text \<open>
  C7, as the code has it. A word that no case matches is a no-op: the step completes,
  PC has advanced by 2, the key latch is cleared, and everything else (registers,
  memory, stack, display, timers) is as before. Nothing is raised and nothing is
  recorded: the result is just that state.
\<close>

theorem unmatched_opcode_is_silent_nop:
  assumes "fetch s = Inr opcode" and "unmatched opcode"
  shows "tick rnd s = Inr (s\<lparr>pc := pc s + 2, kb_interrupt := None\<rparr>)"
  using assms by (simp add: tick_def unmatched_exec finish_def)

lemma fetch_ex_unknown: "fetch ex_unknown = Inr 0x801F"
  by (simp add: fetch_def ex_unknown_def init_def lget_in length_sprites nth_append)

theorem unmatched_opcode_witness:
  "fetch ex_unknown = Inr 0x801F \<and> unmatched 0x801F \<and>
   tick 0 ex_unknown = Inr (ex_unknown\<lparr>pc := pc ex_unknown + 2, kb_interrupt := None\<rparr>)"
proof -
  have u: "unmatched 0x801F" by (simp add: unmatched_def)
  from unmatched_opcode_is_silent_nop [OF fetch_ex_unknown u, of 0]
  show ?thesis using fetch_ex_unknown u by simp
qed

text \<open>
  The word \<open>0x801F\<close> is swallowed silently: the step returns normally, not with an
  \<open>UnknownOpcode\<close> diagnostic.
\<close>

theorem no_diagnostic_counterexample:
  "tick 0 ex_unknown = Inr (ex_unknown\<lparr>pc := 514, kb_interrupt := None\<rparr>) \<and>
   tick 0 ex_unknown \<noteq> Inl (UnknownOpcode 0x801F)"
  by code_simp

section \<open>The stack pointer\<close>

lemma py_mod_48 [simp]: "py_mod a 48 = Inr (a mod 48)"
  by (simp add: py_mod_def)

lemma op_2nnn_eq:
  assumes "length (stack s) = 48"
  shows "op_2nnn s opcode =
    Inr (s\<lparr>stack := (stack s)[nat ((sp s + 1) mod 48) := pc s AND 0x00FF,
                              nat ((sp s + 2) mod 48) := drop_bit 8 (pc s)],
           sp := (sp s + 2) mod 48, pc := opcode AND 0x0FFF\<rparr>)"
proof -
  have "((sp s + 1) mod 48 + 1) mod 48 = ((sp s + 1) + 1) mod 48"
    by (rule mod_add_left_eq)
  then have m: "((sp s + 1) mod 48 + 1) mod 48 = (sp s + 2) mod 48"
    by (simp add: ac_simps)
  show ?thesis using assms by (simp add: op_2nnn_def lset_in m)
qed

lemma op_00EE_eq:
  assumes "length (stack s) = 48" "0 \<le> sp s" "sp s < 48"
  shows "op_00EE s =
    Inr (s\<lparr>pc := push_bit 8 (stack s ! nat (sp s)) OR stack s ! nat ((sp s - 1) mod 48),
           sp := (sp s - 2) mod 48\<rparr>)"
proof -
  have "((sp s - 1) mod 48 - 1) mod 48 = ((sp s - 1) - 1) mod 48"
    by (rule mod_diff_left_eq)
  then have m: "((sp s - 1) mod 48 - 1) mod 48 = (sp s - 2) mod 48"
    by simp
  show ?thesis using assms by (simp add: op_00EE_def lget_in m)
qed

lemma tick_call:
  assumes "fetch s = Inr opcode" "opcode AND 0xF000 = 0x2000" "length (stack s) = 48"
  shows "tick rnd s =
    Inr (s\<lparr>stack := (stack s)[nat ((sp s + 1) mod 48) := (pc s + 2) AND 0x00FF,
                              nat ((sp s + 2) mod 48) := drop_bit 8 (pc s + 2)],
           sp := (sp s + 2) mod 48, pc := opcode AND 0x0FFF, kb_interrupt := None\<rparr>)"
  using assms by (simp add: tick_def exec_def Let_def cont_def op_2nnn_eq finish_def)

lemma tick_ret:
  assumes "fetch s = Inr opcode" "opcode AND 0xF000 = 0x0000" "opcode AND 0x00FF = 0xEE"
    "length (stack s) = 48" "0 \<le> sp s" "sp s < 48"
  shows "tick rnd s =
    Inr (s\<lparr>pc := push_bit 8 (stack s ! nat (sp s)) OR stack s ! nat ((sp s - 1) mod 48),
           sp := (sp s - 2) mod 48, kb_interrupt := None\<rparr>)"
  using assms by (simp add: tick_def exec_def exec_0_def Let_def cont_def op_00EE_eq finish_def)

text \<open>
  C2, as the code has it. On the 48-byte stack, with the stack pointer in range, \<^verbatim>\<open>2nnn\<close>
  and \<^verbatim>\<open>00EE\<close> always complete: no stack error exists. The call moves the stack pointer
  up by two, the return down by two, both modulo 48, so the pointer wraps around at
  either end.
\<close>

theorem stack_pointer_wraps:
  assumes "length (stack s) = 48" "0 \<le> sp s" "sp s < 48" "fetch s = Inr opcode"
  shows "(opcode AND 0xF000 = 0x2000 \<longrightarrow>
            (\<exists>s'. tick rnd s = Inr s' \<and> sp s' = (sp s + 2) mod 48)) \<and>
         (opcode AND 0xF000 = 0x0000 \<and> opcode AND 0x00FF = 0xEE \<longrightarrow>
            (\<exists>s'. tick rnd s = Inr s' \<and> sp s' = (sp s - 2) mod 48))"
  using assms by (simp add: tick_call tick_ret)

lemma fetch_ex_00EE: "fetch ex_00EE = Inr 0x00EE"
  by (simp add: fetch_def ex_00EE_def init_def lget_in length_sprites nth_append)

lemma fetch_ex_call: "fetch ex_call = Inr 0x2204"
  by (simp add: fetch_def ex_call_def init_def lget_in length_sprites nth_append)

theorem stack_pointer_wraps_witness:
  "length (stack ex_call) = 48 \<and> sp ex_call = 0 \<and> fetch ex_call = Inr 0x2204 \<and>
   (\<exists>s'. tick 0 ex_call = Inr s' \<and> sp s' = 2) \<and>
   length (stack ex_00EE) = 48 \<and> sp ex_00EE = 0 \<and> fetch ex_00EE = Inr 0x00EE \<and>
   (\<exists>s'. tick 0 ex_00EE = Inr s' \<and> sp s' = 46)"
proof -
  have c: "length (stack ex_call) = 48" "sp ex_call = 0"
    by (simp_all add: ex_call_def init_def)
  have r: "length (stack ex_00EE) = 48" "sp ex_00EE = 0"
    by (simp_all add: ex_00EE_def init_def)
  from stack_pointer_wraps [of ex_call "0x2204" 0] c fetch_ex_call
  have 1: "\<exists>s'. tick 0 ex_call = Inr s' \<and> sp s' = 2" by simp
  from stack_pointer_wraps [of ex_00EE "0x00EE" 0] r fetch_ex_00EE
  have 2: "\<exists>s'. tick 0 ex_00EE = Inr s' \<and> sp s' = 46" by simp
  show ?thesis using c r fetch_ex_call fetch_ex_00EE 1 2 by simp
qed

text \<open>
  \<^verbatim>\<open>00EE\<close> on the empty stack of a fresh emulator raises nothing: the stack pointer
  wraps from 0 to 46 and PC becomes 0.
\<close>

theorem return_on_empty_stack_counterexample:
  "sp ex_00EE = 0 \<and> tick 0 ex_00EE = Inr (ex_00EE\<lparr>pc := 0, sp := 46\<rparr>)"
  by code_simp

section \<open>Loading a ROM: bounds\<close>






section \<open>Call and return: the round trip\<close>

lemma bindE_InrE:
  assumes "bindE m f = Inr r"
  obtains v where "m = Inr v" and "f v = Inr r"
  using assms by (cases m) auto

lemma cont_InrE:
  assumes "cont m = Inr r"
  obtains s' where "m = Inr s'" and "r = Next s'"
  using assms by (cases m) (auto simp: cont_def)

lemma set_reg_stack: "set_reg s i v = Inr s' \<Longrightarrow> stack s' = stack s \<and> sp s' = sp s"
  by (auto simp: set_reg_def elim!: bindE_InrE)

lemma set_pixel_stack: "set_pixel s x y = Inr (h, s') \<Longrightarrow> stack s' = stack s \<and> sp s' = sp s"
  by (auto simp: set_pixel_def Let_def elim!: bindE_InrE split: if_splits)

lemma draw_cols_stack:
  "draw_cols s x y row sprite cols = Inr s' \<Longrightarrow> stack s' = stack s \<and> sp s' = sp s"
proof (induction cols arbitrary: s sprite)
  case Nil
  then show ?case by simp
next
  case (Cons col cols)
  from Cons.prems obtain s2 where
    a: "(if (sprite AND 0x80) > 0 then
              bindE (get_reg s x) (\<lambda>vx.
              bindE (get_reg s y) (\<lambda>vy.
              bindE (set_pixel s (vx mod 64 + col) (vy mod 32 + row)) (\<lambda>(hit, s1).
              if hit \<noteq> 0 then set_reg s1 0xF 1 else Inr s1)))
            else Inr s) = Inr s2"
    and b: "draw_cols s2 x y row (push_bit 1 sprite AND 0x00FF) cols = Inr s'"
    by (auto split: sum.splits)
  from a have "stack s2 = stack s \<and> sp s2 = sp s"
    by (auto elim!: bindE_InrE split: if_splits dest!: set_pixel_stack set_reg_stack)
  with Cons.IH [OF b] show ?case by simp
qed

lemma draw_rows_stack:
  "draw_rows s x y rows = Inr s' \<Longrightarrow> stack s' = stack s \<and> sp s' = sp s"
proof (induction rows arbitrary: s)
  case Nil
  then show ?case by simp
next
  case (Cons row rows)
  from Cons.prems obtain sprite s1 where
    "draw_cols s x y row sprite (py_range 8) = Inr s1" and "draw_rows s1 x y rows = Inr s'"
    by (auto split: sum.splits)
  with Cons.IH [of s1] draw_cols_stack [of s x y row sprite "py_range 8" s1]
  show ?case by simp
qed

lemma store_regs_stack: "store_regs s is = Inr s' \<Longrightarrow> stack s' = stack s \<and> sp s' = sp s"
proof (induction "is" arbitrary: s)
  case Nil
  then show ?case by simp
next
  case (Cons i rest)
  from Cons.prems obtain m where "store_regs (s\<lparr>mem := m\<rparr>) rest = Inr s'"
    by (auto split: sum.splits)
  with Cons.IH [of "s\<lparr>mem := m\<rparr>"] show ?case by simp
qed

lemma load_regs_stack: "load_regs s is = Inr s' \<Longrightarrow> stack s' = stack s \<and> sp s' = sp s"
proof (induction "is" arbitrary: s)
  case Nil
  then show ?case by simp
next
  case (Cons i rest)
  from Cons.prems obtain v s1 where "set_reg s i v = Inr s1" and "load_regs s1 rest = Inr s'"
    by (auto split: sum.splits)
  with Cons.IH [of s1] set_reg_stack [of s i v s1] show ?case by simp
qed

lemma exec_8_stack: "exec_8 s opcode x y = Inr s' \<Longrightarrow> stack s' = stack s \<and> sp s' = sp s"
  by (auto simp: exec_8_def Let_def op_logic_def op_8xy4_def op_8xy5_def op_8xy6_def
      op_8xy7_def op_8xyE_def shift_source_def
      elim!: bindE_InrE split: if_splits dest!: set_reg_stack)

lemma exec_0_stack:
  "exec_0 s opcode = Inr s' \<Longrightarrow> opcode AND 0x00FF \<noteq> 0xEE \<Longrightarrow> stack s' = stack s \<and> sp s' = sp s"
  by (auto simp: exec_0_def Let_def split: if_splits)

lemma draw_sprite_stack:
  "draw_sprite s opcode x y = Inr s' \<Longrightarrow> stack s' = stack s \<and> sp s' = sp s"
  by (auto simp: draw_sprite_def elim!: bindE_InrE dest!: set_reg_stack draw_rows_stack)

lemma exec_D_stack:
  "exec_D s opcode x y = Inr r \<Longrightarrow> stack (finish r) = stack s \<and> sp (finish r) = sp s"
  by (auto simp: exec_D_def finish_def update_timers_def Let_def
      elim!: cont_InrE split: if_splits dest!: draw_sprite_stack)

lemma exec_E_stack: "exec_E s opcode x = Inr s' \<Longrightarrow> stack s' = stack s \<and> sp s' = sp s"
  by (auto simp: exec_E_def Let_def elim!: bindE_InrE split: if_splits)

lemma op_Fx33_stack: "op_Fx33 s x = Inr s' \<Longrightarrow> stack s' = stack s \<and> sp s' = sp s"
  by (auto simp: op_Fx33_def elim!: bindE_InrE)

lemma exec_F_stack:
  "exec_F s opcode x = Inr r \<Longrightarrow> stack (finish r) = stack s \<and> sp (finish r) = sp s"
  by (auto simp: exec_F_def finish_def advance_i_def Let_def
      elim!: cont_InrE bindE_InrE split: if_splits option.splits
      dest!: set_reg_stack op_Fx33_stack store_regs_stack load_regs_stack)

lemma exec_stack:
  assumes "exec rnd s opcode = Inr r" and "opcode AND 0xF000 \<noteq> 0x2000"
    and "opcode AND 0xF000 \<noteq> 0x0000 \<or> opcode AND 0x00FF \<noteq> 0xEE"
  shows "stack (finish r) = stack s \<and> sp (finish r) = sp s"
proof -
  let ?f = "opcode AND 0xF000"
  consider (zero) "?f = 0x0000" | (D) "?f = 0xD000" | (E) "?f = 0xE000" | (F) "?f = 0xF000"
    | (eight) "?f = 0x8000"
    | (plain) "?f \<noteq> 0x0000" "?f \<noteq> 0x8000" "?f \<noteq> 0xD000" "?f \<noteq> 0xE000" "?f \<noteq> 0xF000"
    by blast
  then show ?thesis
  proof cases
    case zero
    with assms show ?thesis
      by (auto simp: exec_def Let_def finish_def elim!: cont_InrE dest!: exec_0_stack)
  next
    case D
    with assms show ?thesis by (simp add: exec_def Let_def exec_D_stack)
  next
    case E
    with assms show ?thesis
      by (auto simp: exec_def Let_def finish_def elim!: cont_InrE dest!: exec_E_stack)
  next
    case F
    with assms show ?thesis by (simp add: exec_def Let_def exec_F_stack)
  next
    case eight
    with assms show ?thesis
      by (auto simp: exec_def Let_def finish_def elim!: cont_InrE dest!: exec_8_stack)
  next
    case plain
    with assms show ?thesis
      by (auto simp: exec_def Let_def finish_def skip_if_def
          elim!: cont_InrE bindE_InrE split: if_splits dest!: set_reg_stack)
  qed
qed

lemma tick_stack:
  assumes "tick rnd s = Inr s'" and "\<not> is_call s" and "\<not> is_return s"
  shows "stack s' = stack s \<and> sp s' = sp s"
proof -
  from assms(1) obtain opcode r where f: "fetch s = Inr opcode"
    and e: "exec rnd (s\<lparr>pc := pc s + 2\<rparr>) opcode = Inr r" and s': "s' = finish r"
    by (auto simp: tick_def elim!: bindE_InrE)
  from f assms(2,3) have "opcode AND 0xF000 \<noteq> 0x2000"
    and "opcode AND 0xF000 \<noteq> 0x0000 \<or> opcode AND 0x00FF \<noteq> 0xEE"
    by (auto simp: is_call_def is_return_def)
  from exec_stack [OF e this] s' show ?thesis by simp
qed

lemma ident16: "push_bit 8 (drop_bit 8 (p::int)) OR (p AND 0x00FF) = p"
  unfolding and_255 by (rule bit_eqI) (auto simp: bit_simps)

lemma mod48_up_down: "0 \<le> (p::int) \<Longrightarrow> p < 48 \<Longrightarrow> ((p + 2) mod 48 - 2) mod 48 = p"
proof -
  assume p: "0 \<le> p" "p < 48"
  have "((p + 2) mod 48 - 2) mod 48 = ((p + 2) - 2) mod 48" by (rule mod_diff_left_eq)
  with p show ?thesis by simp
qed

lemma mod48_up_down1: "(((p::int) + 2) mod 48 - 1) mod 48 = (p + 1) mod 48"
proof -
  have "((p + 2) mod 48 - 1) mod 48 = ((p + 2) - 1) mod 48" by (rule mod_diff_left_eq)
  then show ?thesis by (simp add: ac_simps)
qed

lemma mod48_neq: "((p::int) + 2) mod 48 \<noteq> (p + 1) mod 48"
proof
  assume "(p + 2) mod 48 = (p + 1) mod 48"
  then have "(48::int) dvd (p + 2) - (p + 1)" by (simp only: mod_eq_dvd_iff)
  then show False by simp
qed

lemma window_inner:
  assumes "k \<notin> window p (Suc d)"
  shows "k \<notin> window ((p + 2) mod 48) d" and "k \<noteq> (p + 1) mod 48" and "k \<noteq> (p + 2) mod 48"
proof -
  show "k \<notin> window ((p + 2) mod 48) d"
  proof
    assume "k \<in> window ((p + 2) mod 48) d"
    then obtain j where j: "1 \<le> j" "j \<le> 2 * d" and k: "k = ((p + 2) mod 48 + int j) mod 48"
      by (auto simp: window_def)
    have "((p + 2) mod 48 + int j) mod 48 = ((p + 2) + int j) mod 48" by (rule mod_add_left_eq)
    with k have "k = (p + int (j + 2)) mod 48" by (simp add: ac_simps)
    moreover have "1 \<le> j + 2" "j + 2 \<le> 2 * Suc d" using j by simp_all
    ultimately have "k \<in> window p (Suc d)" unfolding window_def by blast
    with assms show False by simp
  qed
  have "(p + int 1) mod 48 \<in> window p (Suc d)" unfolding window_def
    by (rule CollectI, rule exI [of _ 1]) simp
  with assms show "k \<noteq> (p + 1) mod 48" by auto
  have "(p + int 2) mod 48 \<in> window p (Suc d)" unfolding window_def
    by (rule CollectI, rule exI [of _ 2]) simp
  with assms show "k \<noteq> (p + 2) mod 48" by auto
qed

lemma window_full:
  shows "p mod 48 \<notin> window p 23" and "(p - 1) mod 48 \<notin> window p 23"
proof -
  show "p mod 48 \<notin> window p 23"
  proof
    assume "p mod 48 \<in> window p 23"
    then obtain j where j: "1 \<le> j" "j \<le> 46" and "p mod 48 = (p + int j) mod 48"
      by (auto simp: window_def)
    then have "(48::int) dvd p - (p + int j)" by (simp only: mod_eq_dvd_iff)
    then have "(48::int) dvd - int j" by simp
    then have "(48::int) dvd int j" by (simp only: dvd_minus_iff)
    then have "48 dvd j" by presburger
    with j show False by (auto dest: dvd_imp_le)
  qed
  show "(p - 1) mod 48 \<notin> window p 23"
  proof
    assume "(p - 1) mod 48 \<in> window p 23"
    then obtain j where j: "1 \<le> j" "j \<le> 46" and "(p - 1) mod 48 = (p + int j) mod 48"
      by (auto simp: window_def)
    then have "(48::int) dvd (p - 1) - (p + int j)" by (simp only: mod_eq_dvd_iff)
    then have "(48::int) dvd - int (j + 1)" by (simp add: algebra_simps)
    then have "(48::int) dvd int (j + 1)" by (simp only: dvd_minus_iff)
    then have "48 dvd (j + 1)" by presburger
    with j show False by (auto dest: dvd_imp_le)
  qed
qed

lemma is_callE:
  assumes "is_call s"
  obtains opcode where "fetch s = Inr opcode" and "opcode AND 0xF000 = 0x2000"
  using assms by (auto simp: is_call_def split: sum.splits)

lemma is_returnE:
  assumes "is_return s"
  obtains opcode where "fetch s = Inr opcode" and "opcode AND 0xF000 = 0x0000"
    and "opcode AND 0x00FF = 0xEE"
  using assms by (auto simp: is_return_def split: sum.splits)

lemma nested_frame:
  assumes "nested d s t" and "length (stack s) = 48" and "0 \<le> sp s" and "sp s < 48"
  shows "length (stack t) = 48 \<and> sp t = sp s \<and>
         (\<forall>k. 0 \<le> k \<and> k < 48 \<and> k \<notin> window (sp s) d \<longrightarrow> stack t ! nat k = stack s ! nat k)"
  using assms
proof (induction rule: nested.induct)
  case (finished d s)
  then show ?case by simp
next
  case (other s rnd s' d t)
  from tick_stack [OF other.hyps(3) other.hyps(1) other.hyps(2)]
  have "stack s' = stack s" "sp s' = sp s" by simp_all
  with other.IH other.prems show ?case by simp
next
  case (inner s rnd s1 d s2 rnd' s3 t)
  let ?p = "sp s"
  from inner.hyps(1) obtain opcode where f: "fetch s = Inr opcode"
    and c: "opcode AND 0xF000 = 0x2000" by (rule is_callE)
  from tick_call [OF f c inner.prems(1), of rnd] inner.hyps(2)
  have s1: "stack s1 = (stack s)[nat ((?p + 1) mod 48) := (pc s + 2) AND 0x00FF,
                                 nat ((?p + 2) mod 48) := drop_bit 8 (pc s + 2)]"
    and sp1: "sp s1 = (?p + 2) mod 48" by auto
  have len1: "length (stack s1) = 48" using s1 inner.prems(1) by simp
  have r1: "0 \<le> sp s1" "sp s1 < 48" using sp1 by simp_all
  from inner.IH(1) [OF len1 r1]
  have len2: "length (stack s2) = 48" and sp2: "sp s2 = sp s1"
    and fr2: "\<And>k. 0 \<le> k \<Longrightarrow> k < 48 \<Longrightarrow> k \<notin> window (sp s1) d \<Longrightarrow>
                stack s2 ! nat k = stack s1 ! nat k" by auto
  from inner.hyps(4) obtain opcode' where f': "fetch s2 = Inr opcode'"
    and z: "opcode' AND 0xF000 = 0x0000" and e: "opcode' AND 0x00FF = 0xEE" by (rule is_returnE)
  have r2: "0 \<le> sp s2" "sp s2 < 48" using sp2 r1 by simp_all
  from tick_ret [OF f' z e len2 r2, of rnd'] inner.hyps(5)
  have st3: "stack s3 = stack s2" and sp3': "sp s3 = (sp s2 - 2) mod 48" by auto
  have sp3: "sp s3 = ?p"
    using sp3' sp2 sp1 mod48_up_down [OF inner.prems(2) inner.prems(3)] by simp
  have len3: "length (stack s3) = 48" using st3 len2 by simp
  from inner.IH(2) [OF len3] sp3 inner.prems
  have lent: "length (stack t) = 48" and spt: "sp t = ?p"
    and frt: "\<And>k. 0 \<le> k \<Longrightarrow> k < 48 \<Longrightarrow> k \<notin> window ?p (Suc d) \<Longrightarrow>
                stack t ! nat k = stack s3 ! nat k" by auto
  have "stack t ! nat k = stack s ! nat k"
    if k: "0 \<le> k" "k < 48" "k \<notin> window ?p (Suc d)" for k
  proof -
    from window_inner [OF k(3)]
    have a: "k \<notin> window (sp s1) d" and b: "k \<noteq> (?p + 1) mod 48" and c: "k \<noteq> (?p + 2) mod 48"
      using sp1 by simp_all
    have nb: "nat k \<noteq> nat ((?p + 1) mod 48)" using b k by simp
    have nc: "nat k \<noteq> nat ((?p + 2) mod 48)" using c k by simp
    have "stack t ! nat k = stack s3 ! nat k" using frt k by simp
    also have "\<dots> = stack s1 ! nat k" using st3 fr2 k a by simp
    also have "\<dots> = stack s ! nat k" using s1 nb nc by simp
    finally show ?thesis .
  qed
  with lent spt show ?case by simp
qed

lemma round_trip_aux:
  assumes len: "length (stack s) = 48" and sp: "0 \<le> sp s" "sp s < 48"
    and f: "fetch s = Inr opcode" and c: "opcode AND 0xF000 = 0x2000"
    and n: "nested 23 s1 s2" and s1: "tick rnd s = Inr s1" and r: "is_return s2"
  shows "pc s1 = opcode AND 0x0FFF \<and>
         (\<exists>s3. tick rnd' s2 = Inr s3 \<and> pc s3 = pc s + 2 \<and> sp s3 = sp s)"
proof -
  let ?p = "sp s"
  from tick_call [OF f c len, of rnd] s1
  have st1: "stack s1 = (stack s)[nat ((?p + 1) mod 48) := (pc s + 2) AND 0x00FF,
                                  nat ((?p + 2) mod 48) := drop_bit 8 (pc s + 2)]"
    and sp1: "sp s1 = (?p + 2) mod 48" and pc1: "pc s1 = opcode AND 0x0FFF" by auto
  have len1: "length (stack s1) = 48" using st1 len by simp
  have r1: "0 \<le> sp s1" "sp s1 < 48" using sp1 by simp_all
  from nested_frame [OF n len1 r1]
  have len2: "length (stack s2) = 48" and sp2: "sp s2 = sp s1"
    and fr: "\<And>k. 0 \<le> k \<Longrightarrow> k < 48 \<Longrightarrow> k \<notin> window (sp s1) 23 \<Longrightarrow>
               stack s2 ! nat k = stack s1 ! nat k" by auto
  have m: "sp s1 mod 48 = sp s1" using r1 by simp
  have hi: "stack s2 ! nat (sp s1) = drop_bit 8 (pc s + 2)"
  proof -
    have "stack s2 ! nat (sp s1) = stack s1 ! nat (sp s1)"
      using fr [of "sp s1"] r1 window_full(1) [of "sp s1"] m by simp
    also have "\<dots> = drop_bit 8 (pc s + 2)" using st1 sp1 len by simp
    finally show ?thesis .
  qed
  have lo_idx: "(sp s1 - 1) mod 48 = (?p + 1) mod 48" using sp1 mod48_up_down1 [of ?p] by simp
  have lo: "stack s2 ! nat ((sp s1 - 1) mod 48) = (pc s + 2) AND 0x00FF"
  proof -
    have "stack s2 ! nat ((sp s1 - 1) mod 48) = stack s1 ! nat ((sp s1 - 1) mod 48)"
      using fr [of "(sp s1 - 1) mod 48"] window_full(2) [of "sp s1"] by simp
    also have "\<dots> = (pc s + 2) AND 0x00FF"
    proof -
      have "nat ((?p + 1) mod 48) \<noteq> nat ((?p + 2) mod 48)"
        using mod48_neq [of ?p] by simp
      then show ?thesis using st1 lo_idx len by simp
    qed
    finally show ?thesis .
  qed
  from r obtain opcode' where f': "fetch s2 = Inr opcode'"
    and z: "opcode' AND 0xF000 = 0x0000" and e: "opcode' AND 0x00FF = 0xEE" by (rule is_returnE)
  have r2: "0 \<le> sp s2" "sp s2 < 48" using sp2 r1 by simp_all
  have "sp s2 - 2 = sp s1 - 2" using sp2 by simp
  then have ret_sp: "(sp s2 - 2) mod 48 = ?p"
    using sp1 mod48_up_down [OF sp] by simp
  from tick_ret [OF f' z e len2 r2, of rnd'] hi lo sp2 ret_sp ident16 [of "pc s + 2"]
  have "\<exists>s3. tick rnd' s2 = Inr s3 \<and> pc s3 = pc s + 2 \<and> sp s3 = ?p" by simp
  with pc1 show ?thesis by simp
qed

text \<open>
  C8, as the code has it. Let \<^verbatim>\<open>2nnn\<close> be executed at PC \<open>p\<close> on the 48-byte stack. The call
  always completes and continues at \<open>nnn\<close>, whatever the depth. If the run that follows
  is nested at most 23 deep (so that with this call at most 24 calls are pending) and
  arrives at a \<^verbatim>\<open>00EE\<close>, that return completes, continues at \<open>p + 2\<close>, the instruction after
  the call, and restores the stack pointer.
\<close>

theorem call_return_round_trip:
  assumes len: "length (stack s) = 48" and sp: "0 \<le> sp s" "sp s < 48"
    and f: "fetch s = Inr opcode" and c: "opcode AND 0xF000 = 0x2000"
  shows "(\<exists>s1. tick rnd s = Inr s1 \<and> pc s1 = opcode AND 0x0FFF) \<and>
         (\<forall>s1 s2. tick rnd s = Inr s1 \<and> nested 23 s1 s2 \<and> is_return s2 \<longrightarrow>
            (\<exists>s3. tick rnd' s2 = Inr s3 \<and> pc s3 = pc s + 2 \<and> sp s3 = sp s))"
  using tick_call [OF f c len, of rnd] round_trip_aux [OF len sp f c, of _ _ rnd rnd']
  by auto

lemma fetch_at:
  "length (mem s) = 4096 \<Longrightarrow> 0 \<le> pc s \<Longrightarrow> pc s + 1 < 4096 \<Longrightarrow>
   fetch s = Inr (push_bit 8 (mem s ! nat (pc s)) OR mem s ! nat (pc s + 1))"
  by (simp add: fetch_def lget_in)

lemmas ex_nest_defs = ex_nest2_def ex_nestB_def ex_nestA_def ex_nest1_def ex_nest_def init_def

lemma ex_nest_fetch:
  "fetch ex_nest = Inr 0x2204" "fetch ex_nest1 = Inr 0x2208" "fetch ex_nestA = Inr 0x6007"
  "fetch ex_nestB = Inr 0x00EE" "fetch ex_nest2 = Inr 0x00EE"
  by (simp_all add: fetch_at ex_nest_defs length_sprites nth_append)

lemma ex_nest_ticks:
  "tick 0 ex_nest = Inr ex_nest1" "tick 0 ex_nest1 = Inr ex_nestA"
  "tick 0 ex_nestB = Inr ex_nest2"
  "tick 0 ex_nest2 = Inr (ex_nest2\<lparr>pc := 0x202, sp := 0\<rparr>)"
proof -
  show "tick 0 ex_nest = Inr ex_nest1"
    by (subst tick_call [OF ex_nest_fetch(1)]) (simp_all add: ex_nest_defs)
  show "tick 0 ex_nest1 = Inr ex_nestA"
    by (subst tick_call [OF ex_nest_fetch(2)]) (simp_all add: ex_nest_defs)
  show "tick 0 ex_nestB = Inr ex_nest2"
    by (subst tick_ret [OF ex_nest_fetch(4)]) (simp_all add: ex_nest_defs)
  show "tick 0 ex_nest2 = Inr (ex_nest2\<lparr>pc := 0x202, sp := 0\<rparr>)"
    by (subst tick_ret [OF ex_nest_fetch(5)]) (simp_all add: ex_nest_defs)
qed

lemma ex_nest_tick_other: "tick 0 ex_nestA = Inr ex_nestB"
proof -
  have "length (regs ex_nestA) = 16" by (simp add: ex_nest_defs)
  then show ?thesis
    by (simp add: tick_def ex_nest_fetch(3) exec_def Let_def cont_def set_reg_in finish_def)
       (simp add: ex_nest_defs)
qed

lemma ex_nest_kinds:
  "is_call ex_nest1" "\<not> is_call ex_nestA" "\<not> is_return ex_nestA"
  "is_return ex_nestB" "is_return ex_nest2"
  by (simp_all add: is_call_def is_return_def ex_nest_fetch)

theorem call_return_round_trip_witness:
  "length (stack ex_nest) = 48 \<and> sp ex_nest = 0 \<and> fetch ex_nest = Inr 0x2204 \<and>
   tick 0 ex_nest = Inr ex_nest1 \<and> pc ex_nest1 = 0x204 \<and>
   nested 23 ex_nest1 ex_nest2 \<and> is_return ex_nest2 \<and>
   (\<exists>s3. tick 0 ex_nest2 = Inr s3 \<and> pc s3 = 0x202 \<and> sp s3 = 0)"
proof -
  have len: "length (stack ex_nest) = 48" and sp: "sp ex_nest = 0" and pc: "pc ex_nest = 0x200"
    by (simp_all add: ex_nest_def init_def)
  have "nested 22 ex_nestA ex_nestB"
    using ex_nest_kinds(2,3) ex_nest_tick_other nested.finished by (rule nested.other)
  with ex_nest_kinds(1) ex_nest_ticks(2)
  have "nested (Suc 22) ex_nest1 ex_nest2"
    using ex_nest_kinds(4) ex_nest_ticks(3) nested.finished by (rule nested.inner)
  then have n: "nested 23 ex_nest1 ex_nest2" by simp
  have pc1: "pc ex_nest1 = 0x204" by (simp add: ex_nest1_def)
  have r: "0 \<le> sp ex_nest" "sp ex_nest < 48" using sp by simp_all
  have c: "(0x2204::int) AND 0xF000 = 0x2000" by simp
  from call_return_round_trip [OF len r ex_nest_fetch(1) c, of 0 0]
  have "tick 0 ex_nest = Inr ex_nest1 \<and> nested 23 ex_nest1 ex_nest2 \<and> is_return ex_nest2 \<longrightarrow>
          (\<exists>s3. tick 0 ex_nest2 = Inr s3 \<and> pc s3 = pc ex_nest + 2 \<and> sp s3 = sp ex_nest)"
    by blast
  with ex_nest_ticks(1) n ex_nest_kinds(5)
  have "\<exists>s3. tick 0 ex_nest2 = Inr s3 \<and> pc s3 = pc ex_nest + 2 \<and> sp s3 = sp ex_nest"
    by blast
  then have "\<exists>s3. tick 0 ex_nest2 = Inr s3 \<and> pc s3 = 0x202 \<and> sp s3 = 0"
    using sp pc by simp
  with len sp ex_nest_fetch(1) ex_nest_kinds(5) ex_nest_ticks(1) n pc1 show ?thesis by simp
qed


lemma self_call_run:
  assumes "fetch s = Inr 0x2200" and "pc s = 0x200" and "length (stack s) = 48"
    and "0 \<le> sp s" and "sp s < 48"
  shows "\<exists>s'. run (replicate n rnd) s = Inr s' \<and> sp s' = (sp s + 2 * int n) mod 48"
  using assms
proof (induction n arbitrary: s)
  case 0
  then show ?case by simp
next
  case (Suc n)
  let ?s1 = "s\<lparr>stack := (stack s)[nat ((sp s + 1) mod 48) := (pc s + 2) AND 0x00FF,
                                   nat ((sp s + 2) mod 48) := drop_bit 8 (pc s + 2)],
                sp := (sp s + 2) mod 48, pc := 0x2200 AND 0x0FFF, kb_interrupt := None\<rparr>"
  have t: "tick rnd s = Inr ?s1"
    using tick_call [OF Suc.prems(1) _ Suc.prems(3), of rnd] by simp
  have f1: "fetch ?s1 = Inr 0x2200"
    using Suc.prems(1,2) by (simp add: fetch_def)
  have "\<exists>s'. run (replicate n rnd) ?s1 = Inr s' \<and> sp s' = (sp ?s1 + 2 * int n) mod 48"
    using f1 Suc.prems(3) by (intro Suc.IH) simp_all
  then obtain s' where r: "run (replicate n rnd) ?s1 = Inr s'"
    and s: "sp s' = (sp ?s1 + 2 * int n) mod 48"
    by auto
  have "((sp s + 2) mod 48 + 2 * int n) mod 48 = ((sp s + 2) + 2 * int n) mod 48"
    by (rule mod_add_left_eq)
  with s have "sp s' = (sp s + 2 * int (Suc n)) mod 48" by (simp add: ac_simps)
  with r t show ?case by simp
qed

lemma fetch_ex_self_call: "fetch ex_self_call = Inr 0x2200"
  by (simp add: fetch_at ex_self_call_def init_def length_sprites nth_append)

text \<open>
  The program \<^verbatim>\<open>2200\<close> at \<open>0x200\<close> calls itself. Twenty-five ticks are twenty-five calls
  with no return in between. The 25th call, one more than the stack holds, raises
  nothing: the run completes, and the stack pointer has wrapped around to 2.
\<close>

theorem no_stack_overflow_counterexample:
  "map_sum id sp (run (replicate 25 0) ex_self_call) = Inr 2 \<and>
   run (replicate 25 0) ex_self_call \<noteq> Inl StackOverflow"
proof -
  have "\<exists>s'. run (replicate 25 0) ex_self_call = Inr s' \<and>
          sp s' = (sp ex_self_call + 2 * int 25) mod 48"
    by (rule self_call_run [OF fetch_ex_self_call]) (simp_all add: ex_self_call_def init_def)
  then obtain s' where "run (replicate 25 0) ex_self_call = Inr s'" and "sp s' = 2"
    by (auto simp: ex_self_call_def init_def)
  then show ?thesis by simp
qed

section \<open>Memory addresses\<close>












lemma cont_Inl [simp]: "cont (Inl e) = Inl e"
  by (simp add: cont_def)








end
